theory Spec2Isabelle
  imports Complex_Main "HOL-Library.Sublist" "HOL-Library.Multiset"
begin

section \<open>Extractive summarisation notebook: sentence scoring, selection and assembly\<close>

text \<open>
  The notebook \<^verbatim>\<open>Text Summarization (Basic Approach).ipynb\<close> is a sequence of cells over
  global variables. Each cell that belongs to the core is embedded as a function of the
  variables it reads:
  \<^item> cell 18: \<^verbatim>\<open>yake_keywords_sorted = sorted(yake_keywords, key=lambda tup: tup[1])\<close>;
  \<^item> cell 22: the scoring loop filling the dictionary \<^verbatim>\<open>sentence_scores\<close>;
  \<^item> cell 24: \<^verbatim>\<open>sentence_scores_sorted\<close>;
  \<^item> cell 27: \<^verbatim>\<open>top_sentences\<close> (slice, projection to indices, sort);
  \<^item> cell 29: the forced inclusion of sentence 0;
  \<^item> cell 31: printing the selected original sentences.

  Document download, sentence segmentation (spaCy) and keyword extraction (Yake!) are
  external: the lists \<^verbatim>\<open>sentences\<close>, \<^verbatim>\<open>sentences_processed\<close> and \<^verbatim>\<open>yake_keywords\<close> are inputs.

  Numbers. Python floats are idealised as reals (no rounding, no overflow). What is kept
  of the floating-point behaviour is the part that changes control flow: a Python
  \<^verbatim>\<open>float\<close> divided by zero raises \<^verbatim>\<open>ZeroDivisionError\<close>, while a \<^verbatim>\<open>numpy.float64\<close>
  divided by zero only warns and yields \<^verbatim>\<open>inf\<close> or \<^verbatim>\<open>nan\<close>, and \<^verbatim>\<open>np.log\<close> of a
  non-positive number warns and yields \<^verbatim>\<open>nan\<close> or \<^verbatim>\<open>-inf\<close>. Such non-finite values are
  the value \<open>None\<close> of type \<open>real option\<close>.

  Strings are lists of 8-bit characters (code points 0 to 255).
\<close>

subsection \<open>Errors\<close>

text \<open>
  \<open>ZeroDivisionError\<close> and \<open>IndexError\<close> are the Python exceptions the cells can raise.
  \<open>NonFiniteScore\<close> is not an exception: it marks a run whose score table holds
  \<^verbatim>\<open>inf\<close> or \<^verbatim>\<open>nan\<close>, where ordering the table is outside this model.
  \<open>EmptyDocument\<close>, \<open>InvalidParameter\<close> and \<open>MisalignedInput\<close> are the error names of the
  specification; no cell of the notebook raises them.
\<close>

datatype error =
    ZeroDivisionError
  | IndexError
  | NonFiniteScore
  | EmptyDocument
  | InvalidParameter
  | MisalignedInput

subsection \<open>Python string operations\<close>

text \<open>\<^verbatim>\<open>str.isspace\<close> on one character, for code points below 256.\<close>

definition isspace :: "char \<Rightarrow> bool" where
  "isspace c =
     (let n = (of_char c :: nat)
      in (9 \<le> n \<and> n \<le> 13) \<or> (28 \<le> n \<and> n \<le> 32) \<or> n = 133 \<or> n = 160)"

text \<open>
  \<^verbatim>\<open>sent.split()\<close> without argument: the maximal runs of non-whitespace characters, in
  order. \<open>cur\<close> is the run being read.
\<close>

fun split_from :: "string \<Rightarrow> string \<Rightarrow> string list" where
  "split_from cur [] = (if cur = [] then [] else [cur])"
| "split_from cur (c # cs) =
     (if isspace c
      then (if cur = [] then split_from [] cs else cur # split_from [] cs)
      else split_from (cur @ [c]) cs)"

definition py_split :: "string \<Rightarrow> string list" where
  "py_split s = split_from [] s"

text \<open>\<^verbatim>\<open>keyword in sent\<close> on strings: \<open>keyword\<close> occurs as a contiguous substring.\<close>

fun py_in :: "string \<Rightarrow> string \<Rightarrow> bool" where
  "py_in keyword [] = (keyword = [])"
| "py_in keyword (c # cs) = (prefix keyword (c # cs) \<or> py_in keyword cs)"

text \<open>\<^verbatim>\<open>s.strip()\<close>: leading and trailing whitespace removed.\<close>

definition strip :: "string \<Rightarrow> string" where
  "strip s = rev (dropWhile isspace (rev (dropWhile isspace s)))"

subsection \<open>Cell 22: sentence scoring\<close>

text \<open>
  The accumulator \<^verbatim>\<open>sent_score\<close> starts as the Python float \<^verbatim>\<open>0.0\<close>. \<^verbatim>\<open>np.log\<close> returns a
  \<^verbatim>\<open>numpy.float64\<close>, and Python float plus \<^verbatim>\<open>numpy.float64\<close> is a \<^verbatim>\<open>numpy.float64\<close>, so
  after the first addition the accumulator is a numpy scalar.
\<close>

datatype sent_score = PyFloat real | NpFloat real | NpNonFinite

text \<open>\<^verbatim>\<open>np.log(x)\<close>: the natural logarithm for positive \<open>x\<close>, non-finite otherwise.\<close>

definition np_log :: "real \<Rightarrow> real option" where
  "np_log x = (if 0 < x then Some (ln x) else None)"

text \<open>\<^verbatim>\<open>sent_score += v\<close> for a numpy value \<open>v\<close>.\<close>

fun iadd :: "sent_score \<Rightarrow> real option \<Rightarrow> sent_score" where
  "iadd (PyFloat a) (Some v) = NpFloat (a + v)"
| "iadd (NpFloat a) (Some v) = NpFloat (a + v)"
| "iadd NpNonFinite (Some v) = NpNonFinite"
| "iadd a None = NpNonFinite"

text \<open>The inner loop \<^verbatim>\<open>for keyword, score in yake_keywords_sorted\<close>.\<close>

fun keyword_loop :: "(string \<times> real) list \<Rightarrow> string \<Rightarrow> sent_score \<Rightarrow> sent_score" where
  "keyword_loop [] sent acc = acc"
| "keyword_loop ((keyword, score) # kws) sent acc =
     (if score = 0 then keyword_loop kws sent acc
      else if py_in keyword sent
           then keyword_loop kws sent (iadd acc (np_log (1 / score)))
           else keyword_loop kws sent acc)"

text \<open>\<^verbatim>\<open>sent_score / sent_len\<close>.\<close>

fun normalize :: "sent_score \<Rightarrow> nat \<Rightarrow> error + real option" where
  "normalize (PyFloat a) sent_len =
     (if sent_len = 0 then Inl ZeroDivisionError else Inr (Some (a / real sent_len)))"
| "normalize (NpFloat a) sent_len =
     (if sent_len = 0 then Inr None else Inr (Some (a / real sent_len)))"
| "normalize NpNonFinite sent_len = Inr None"

text \<open>The body of the outer loop for one sentence.\<close>

definition score_sentence :: "(string \<times> real) list \<Rightarrow> string \<Rightarrow> error + real option" where
  "score_sentence yake_keywords_sorted sent =
     normalize (keyword_loop yake_keywords_sorted sent (PyFloat 0)) (length (py_split sent))"

text \<open>
  The outer loop \<^verbatim>\<open>for sid, sent in enumerate(sentences_processed)\<close>. The dictionary
  \<^verbatim>\<open>sentence_scores\<close> has the keys \<open>0, 1, ...\<close> in insertion order, so it is the list
  of its values: position \<open>sid\<close> holds \<^verbatim>\<open>sentence_scores[sid]\<close>. The first exception ends
  the loop.
\<close>

fun sentence_scores :: "(string \<times> real) list \<Rightarrow> string list \<Rightarrow> error + real option list" where
  "sentence_scores yake_keywords_sorted [] = Inr []"
| "sentence_scores yake_keywords_sorted (sent # rest) =
     (case score_sentence yake_keywords_sorted sent of
        Inl e \<Rightarrow> Inl e
      | Inr v \<Rightarrow>
          (case sentence_scores yake_keywords_sorted rest of
             Inl e \<Rightarrow> Inl e
           | Inr vs \<Rightarrow> Inr (v # vs)))"

subsection \<open>Cells 24, 27 and 29: sentence selection\<close>

text \<open>\<^verbatim>\<open>sentence_scores.items()\<close>: the pairs \<open>(sid, score)\<close> in insertion order.\<close>

definition items :: "real list \<Rightarrow> (nat \<times> real) list" where
  "items scores = List.enumerate 0 scores"

text \<open>
  \<^verbatim>\<open>sorted(sentence_scores.items(), key=lambda x: x[1], reverse=True)\<close>. CPython sorts with
  \<^verbatim>\<open>reverse=True\<close> by reversing the list, sorting it stably in ascending order and
  reversing the result: the scores descend and equal scores keep their original order.
\<close>

definition sentence_scores_sorted :: "real list \<Rightarrow> (nat \<times> real) list" where
  "sentence_scores_sorted scores = rev (sort_key snd (rev (items scores)))"

text \<open>The slice \<^verbatim>\<open>xs[:k]\<close> for a Python integer \<open>k\<close>; a negative \<open>k\<close> counts from the end.\<close>

definition slice_to :: "int \<Rightarrow> 'a list \<Rightarrow> 'a list" where
  "slice_to k xs = (if 0 \<le> k then take (nat k) xs else take (nat (int (length xs) + k)) xs)"

text \<open>\<^verbatim>\<open>int(np.ceil(summary_size * num_sentences))\<close>.\<close>

definition target_count :: "real \<Rightarrow> nat \<Rightarrow> int" where
  "target_count summary_size num_sentences = \<lceil>summary_size * real num_sentences\<rceil>"

text \<open>Cell 27: slice, keep the indices, sort them.\<close>

definition top_sentences :: "real list \<Rightarrow> nat \<Rightarrow> real \<Rightarrow> nat list" where
  "top_sentences scores num_sentences summary_size =
     sort (map fst (slice_to (target_count summary_size num_sentences)
                             (sentence_scores_sorted scores)))"

text \<open>Cell 29: \<^verbatim>\<open>if 0 not in top_sentences: top_sentences = [0] + top_sentences\<close>.\<close>

definition include_first :: "nat list \<Rightarrow> nat list" where
  "include_first ts = (if 0 \<notin> set ts then [0] @ ts else ts)"

definition selection :: "real list \<Rightarrow> nat \<Rightarrow> real \<Rightarrow> nat list" where
  "selection scores num_sentences summary_size =
     include_first (top_sentences scores num_sentences summary_size)"

subsection \<open>Cell 31: summary generation\<close>

text \<open>
  \<^verbatim>\<open>for idx in top_sentences: print(sentences[idx].strip())\<close>. The result is the list of
  lines printed and the exception that ended the loop, if any.
\<close>

fun generate :: "string list \<Rightarrow> nat list \<Rightarrow> string list \<times> error option" where
  "generate sentences [] = ([], None)"
| "generate sentences (idx # rest) =
     (if idx < length sentences
      then (case generate sentences rest of (out, e) \<Rightarrow> (strip (sentences ! idx) # out, e))
      else ([], Some IndexError))"

subsection \<open>The cells in sequence\<close>

text \<open>
  \<^verbatim>\<open>num_sentences = len(sentences)\<close> (cell 8). The result is the final \<^verbatim>\<open>top_sentences\<close>
  with the printed summary, or the exception that stopped the run.
\<close>

definition pipeline ::
  "string list \<Rightarrow> string list \<Rightarrow> (string \<times> real) list \<Rightarrow> real
     \<Rightarrow> error + nat list \<times> string list" where
  "pipeline sentences sentences_processed yake_keywords summary_size =
     (case sentence_scores (sort_key snd yake_keywords) sentences_processed of
        Inl e \<Rightarrow> Inl e
      | Inr vs \<Rightarrow>
          (case those vs of
             None \<Rightarrow> Inl NonFiniteScore
           | Some scores \<Rightarrow>
               (let sel = selection scores (length sentences) summary_size
                in case generate sentences sel of
                     (out, Some e) \<Rightarrow> Inl e
                   | (out, None) \<Rightarrow> Inr (sel, out))))"

subsection \<open>The run with \<^verbatim>\<open>sorted\<close> given by its contract\<close>

text \<open>
  What Python documents of \<^verbatim>\<open>sorted(xs, key=key, reverse=reverse)\<close>, and nothing more: the
  result is a rearrangement of \<open>xs\<close>, its keys ascend (descend when \<open>reverse\<close> is set), and
  elements with equal keys keep the order they have in \<open>xs\<close>. The last condition is the
  tie-break rule.
\<close>

definition py_sorted :: "('a \<Rightarrow> 'k::linorder) \<Rightarrow> bool \<Rightarrow> 'a list \<Rightarrow> 'a list \<Rightarrow> bool" where
  "py_sorted key reverse xs r \<longleftrightarrow>
     mset r = mset xs
     \<and> (if reverse then sorted (rev (map key r)) else sorted (map key r))
     \<and> (\<forall>x \<in> set xs. filter (\<lambda>y. key y = key x) r = filter (\<lambda>y. key y = key x) xs)"

text \<open>The same contract without the tie-break rule.\<close>

definition py_sorted_any_ties :: "('a \<Rightarrow> 'k::linorder) \<Rightarrow> bool \<Rightarrow> 'a list \<Rightarrow> 'a list \<Rightarrow> bool" where
  "py_sorted_any_ties key reverse xs r \<longleftrightarrow>
     mset r = mset xs
     \<and> (if reverse then sorted (rev (map key r)) else sorted (map key r))"

text \<open>
  One run of cells 18 to 31 as a relation between the input and the outcome: every
  result the three calls of \<^verbatim>\<open>sorted\<close> may return under the contract is a possible value
  of \<^verbatim>\<open>yake_keywords_sorted\<close>, \<^verbatim>\<open>sentence_scores_sorted\<close> and \<^verbatim>\<open>top_sentences\<close>. The outcome is
  the exception that stopped the run, or the final \<^verbatim>\<open>top_sentences\<close> with the printed
  summary.
\<close>

inductive run ::
  "string list \<Rightarrow> string list \<Rightarrow> (string \<times> real) list \<Rightarrow> real
     \<Rightarrow> error + nat list \<times> string list \<Rightarrow> bool" where
  scoring_raises:
    "py_sorted snd False yake_keywords yake_keywords_sorted
     \<Longrightarrow> sentence_scores yake_keywords_sorted sentences_processed = Inl e
     \<Longrightarrow> run sentences sentences_processed yake_keywords summary_size (Inl e)"
| score_not_finite:
    "py_sorted snd False yake_keywords yake_keywords_sorted
     \<Longrightarrow> sentence_scores yake_keywords_sorted sentences_processed = Inr vs
     \<Longrightarrow> those vs = None
     \<Longrightarrow> run sentences sentences_processed yake_keywords summary_size (Inl NonFiniteScore)"
| generation_raises:
    "py_sorted snd False yake_keywords yake_keywords_sorted
     \<Longrightarrow> sentence_scores yake_keywords_sorted sentences_processed = Inr vs
     \<Longrightarrow> those vs = Some scores
     \<Longrightarrow> py_sorted snd True (items scores) ranking
     \<Longrightarrow> py_sorted (\<lambda>i. i) False
           (map fst (slice_to (target_count summary_size (length sentences)) ranking)) chosen
     \<Longrightarrow> generate sentences (include_first chosen) = (out, Some e)
     \<Longrightarrow> run sentences sentences_processed yake_keywords summary_size (Inl e)"
| completes:
    "py_sorted snd False yake_keywords yake_keywords_sorted
     \<Longrightarrow> sentence_scores yake_keywords_sorted sentences_processed = Inr vs
     \<Longrightarrow> those vs = Some scores
     \<Longrightarrow> py_sorted snd True (items scores) ranking
     \<Longrightarrow> py_sorted (\<lambda>i. i) False
           (map fst (slice_to (target_count summary_size (length sentences)) ranking)) chosen
     \<Longrightarrow> generate sentences (include_first chosen) = (out, None)
     \<Longrightarrow> run sentences sentences_processed yake_keywords summary_size
           (Inr (include_first chosen, out))"

subsection \<open>Notions used to state the properties\<close>

text \<open>
  The score of one sentence in the words of the specification: the sum of
  \<open>ln (1 / rawImportance)\<close> over the keywords of positive importance that occur in the
  processed text, divided by the number of whitespace-delimited tokens.
\<close>

definition spec_score :: "(string \<times> real) list \<Rightarrow> string \<Rightarrow> real" where
  "spec_score keywords sent =
     (\<Sum>(k, s) \<leftarrow> filter (\<lambda>(k, s). 0 < s \<and> py_in k sent) keywords. ln (1 / s))
       / real (length (py_split sent))"

text \<open>The number of positions of \<open>sent\<close> at which \<open>keyword\<close> occurs.\<close>

fun occurrences :: "string \<Rightarrow> string \<Rightarrow> nat" where
  "occurrences keyword [] = (if keyword = [] then 1 else 0)"
| "occurrences keyword (c # cs) =
     (if prefix keyword (c # cs) then 1 else 0) + occurrences keyword cs"

text \<open>The real number an accumulator holds, and whether it is still a Python float.\<close>

fun finite_value :: "sent_score \<Rightarrow> real option" where
  "finite_value (PyFloat a) = Some a"
| "finite_value (NpFloat a) = Some a"
| "finite_value NpNonFinite = None"

fun is_py :: "sent_score \<Rightarrow> bool" where
  "is_py (PyFloat a) = True"
| "is_py (NpFloat a) = False"
| "is_py NpNonFinite = False"

section \<open>Properties of the string operations\<close>

lemma split_from_Nil_iff: "split_from cur s = [] \<longleftrightarrow> cur = [] \<and> (\<forall>c \<in> set s. isspace c)"
  by (induction s arbitrary: cur) auto

lemma py_split_Nil_iff: "py_split s = [] \<longleftrightarrow> (\<forall>c \<in> set s. isspace c)"
  by (simp add: py_split_def split_from_Nil_iff)

lemma py_in_set: "py_in k s \<Longrightarrow> set k \<subseteq> set s"
proof (induction s)
  case Nil
  then show ?case by simp
next
  case (Cons c cs)
  then show ?case using set_mono_prefix [of k "c # cs"] by auto
qed

lemma py_in_blank: "py_in k s \<Longrightarrow> py_split s = [] \<Longrightarrow> py_split k = []"
  using py_in_set [of k s] by (auto simp: py_split_Nil_iff)

lemma py_in_sublist: "py_in k s \<longleftrightarrow> sublist k s"
  by (induction s) (auto simp: sublist_Cons_right)

lemma py_in_occurrences: "py_in k s \<longleftrightarrow> 0 < occurrences k s"
  by (induction s) auto

section \<open>Properties of the scoring loop\<close>

lemma is_py_iadd: "\<not> is_py (iadd acc v)"
  by (cases acc; cases v) simp_all

lemma keyword_loop_not_py: "\<not> is_py acc \<Longrightarrow> \<not> is_py (keyword_loop kws sent acc)"
proof (induction kws arbitrary: acc)
  case Nil
  then show ?case by simp
next
  case (Cons p kws)
  obtain k s where p: "p = (k, s)" by (cases p)
  have "\<not> is_py (keyword_loop kws sent (iadd acc (np_log (1 / s))))"
    by (rule Cons.IH) (rule is_py_iadd)
  moreover have "\<not> is_py (keyword_loop kws sent acc)"
    by (rule Cons.IH) (rule Cons.prems)
  ultimately show ?case by (simp add: p)
qed

lemma keyword_loop_no_match:
  "\<forall>(k, s) \<in> set kws. s = 0 \<or> \<not> py_in k sent \<Longrightarrow> keyword_loop kws sent acc = acc"
  by (induction kws arbitrary: acc) auto

lemma keyword_loop_match:
  "\<exists>(k, s) \<in> set kws. s \<noteq> 0 \<and> py_in k sent \<Longrightarrow> \<not> is_py (keyword_loop kws sent acc)"
proof (induction kws arbitrary: acc)
  case Nil
  then show ?case by simp
next
  case (Cons p kws)
  obtain k s where p: "p = (k, s)" by (cases p)
  show ?case
  proof (cases "s \<noteq> 0 \<and> py_in k sent")
    case True
    then show ?thesis by (simp add: p keyword_loop_not_py is_py_iadd)
  next
    case False
    with Cons.prems have "\<exists>(k, s) \<in> set kws. s \<noteq> 0 \<and> py_in k sent" by (auto simp: p)
    from Cons.IH [OF this] False show ?thesis by (auto simp: p)
  qed
qed

lemma normalize_zero:
  "normalize acc 0 = (if is_py acc then Inl ZeroDivisionError else Inr None)"
  by (cases acc) simp_all

lemma score_sentence_blank:
  assumes "py_split sent = []"
  shows "score_sentence kws sent =
           (if \<exists>(k, s) \<in> set kws. s \<noteq> 0 \<and> py_in k sent then Inr None else Inl ZeroDivisionError)"
proof (cases "\<exists>(k, s) \<in> set kws. s \<noteq> 0 \<and> py_in k sent")
  case True
  then show ?thesis
    using keyword_loop_match [of kws sent "PyFloat 0"] assms
    by (simp add: score_sentence_def normalize_zero)
next
  case False
  then have "\<forall>(k, s) \<in> set kws. s = 0 \<or> \<not> py_in k sent" by auto
  from keyword_loop_no_match [OF this, of "PyFloat 0"] False assms show ?thesis
    by (simp add: score_sentence_def)
qed

lemma keyword_loop_cong:
  "\<forall>(k, s) \<in> set kws. py_in k a = py_in k b \<Longrightarrow> keyword_loop kws a acc = keyword_loop kws b acc"
  by (induction kws arbitrary: acc) auto

lemma finite_value_iadd:
  "finite_value (iadd acc (Some v)) = map_option (\<lambda>a. a + v) (finite_value acc)"
  by (cases acc) simp_all

lemma keyword_loop_value:
  "\<forall>(k, s) \<in> set kws. 0 \<le> s \<Longrightarrow>
   finite_value (keyword_loop kws sent acc) =
     map_option (\<lambda>a. a + (\<Sum>(k, s) \<leftarrow> filter (\<lambda>(k, s). 0 < s \<and> py_in k sent) kws. ln (1 / s)))
       (finite_value acc)"
proof (induction kws arbitrary: acc)
  case Nil
  then show ?case by (simp add: option.map_ident)
next
  case (Cons p kws)
  obtain k s where p: "p = (k, s)" by (cases p)
  from Cons.prems have tl: "\<forall>(k, s) \<in> set kws. 0 \<le> s" and s: "0 \<le> s"
    by (simp_all add: p)
  show ?case
  proof (cases "s = 0 \<or> \<not> py_in k sent")
    case True
    then show ?thesis using Cons.IH [OF tl] by (auto simp: p)
  next
    case False
    with s have pos: "0 < s" and occ: "py_in k sent" by simp_all
    then show ?thesis
      using Cons.IH [OF tl, of "iadd acc (Some (ln (1 / s)))"]
      by (simp add: p np_log_def finite_value_iadd option.map_comp comp_def add.assoc)
  qed
qed

lemma normalize_pos:
  "0 < n \<Longrightarrow> normalize acc n = Inr (map_option (\<lambda>a. a / real n) (finite_value acc))"
  by (cases acc) simp_all

lemma score_sentence_spec:
  assumes "\<forall>(k, s) \<in> set kws. 0 \<le> s" and "py_split sent \<noteq> []"
  shows "score_sentence kws sent = Inr (Some (spec_score kws sent))"
  using assms
  by (simp add: score_sentence_def normalize_pos keyword_loop_value spec_score_def)

lemma keyword_loop_filter_zero:
  "keyword_loop (filter (\<lambda>(k, s). s \<noteq> 0) kws) sent acc = keyword_loop kws sent acc"
  by (induction kws arbitrary: acc) auto

lemma sentence_scores_nth:
  "sentence_scores kws sents = Inr vs \<Longrightarrow>
   length vs = length sents \<and> (\<forall>i < length sents. score_sentence kws (sents ! i) = Inr (vs ! i))"
proof (induction sents arbitrary: vs)
  case Nil
  then show ?case by simp
next
  case (Cons s sents)
  then show ?case
    by (auto split: sum.splits simp: nth_Cons split: nat.splits)
qed

lemma sentence_scores_total:
  "\<forall>s \<in> set sents. \<exists>v. score_sentence kws s = Inr v \<Longrightarrow>
   \<exists>vs. sentence_scores kws sents = Inr vs"
  by (induction sents) (auto split: sum.splits)

lemma sentence_scores_Inl:
  "sentence_scores kws sents = Inl e \<Longrightarrow> \<exists>s \<in> set sents. score_sentence kws s = Inl e"
  by (induction sents) (auto split: sum.splits)

lemma score_sentence_error: "score_sentence kws s = Inl e \<Longrightarrow> e = ZeroDivisionError \<and> py_split s = []"
  unfolding score_sentence_def
  by (cases "keyword_loop kws s (PyFloat 0)") (auto split: if_splits)

lemma sentence_scores_raises:
  assumes "sent \<in> set sents" and "score_sentence kws sent = Inl e"
  shows "sentence_scores kws sents = Inl ZeroDivisionError"
proof (cases "sentence_scores kws sents")
  case (Inl e')
  from sentence_scores_Inl [OF Inl] obtain s where "score_sentence kws s = Inl e'" by blast
  then have "e' = ZeroDivisionError" by (simp add: score_sentence_error)
  with Inl show ?thesis by simp
next
  case (Inr vs)
  from assms(1) obtain i where i: "i < length sents" "sents ! i = sent"
    by (auto simp: in_set_conv_nth)
  with sentence_scores_nth [OF Inr] have "score_sentence kws sent = Inr (vs ! i)" by auto
  with assms(2) show ?thesis by simp
qed

lemma sentence_scores_spec:
  assumes "\<forall>(k, s) \<in> set kws. 0 \<le> s" and "\<forall>sent \<in> set sents. py_split sent \<noteq> []"
  shows "sentence_scores kws sents = Inr (map (\<lambda>sent. Some (spec_score kws sent)) sents)"
  using assms(2)
  by (induction sents) (simp_all add: score_sentence_spec [OF assms(1)])

section \<open>Properties of the selection\<close>

lemma map_fst_items: "map fst (items scores) = [0..<length scores]"
  by (simp add: items_def enumerate_eq_zip)

lemma mset_sentence_scores_sorted:
  "mset (sentence_scores_sorted scores) = mset (items scores)"
  by (simp add: sentence_scores_sorted_def)

lemma length_sentence_scores_sorted [simp]:
  "length (sentence_scores_sorted scores) = length scores"
  by (simp add: sentence_scores_sorted_def items_def)

lemma mset_ranked_indices:
  "mset (map fst (sentence_scores_sorted scores)) = mset [0..<length scores]"
proof -
  have "mset (map fst (sentence_scores_sorted scores))
          = image_mset fst (mset (sentence_scores_sorted scores))"
    by (rule mset_map)
  also have "\<dots> = image_mset fst (mset (items scores))"
    by (simp only: mset_sentence_scores_sorted)
  also have "\<dots> = mset (map fst (items scores))"
    by (rule mset_map [symmetric])
  finally show ?thesis by (simp only: map_fst_items)
qed

lemma distinct_ranked_indices: "distinct (map fst (sentence_scores_sorted scores))"
proof -
  have "distinct [0..<length scores]" by simp
  then show ?thesis
    using mset_ranked_indices [of scores] by (metis mset_eq_imp_distinct_iff)
qed

lemma set_ranked_indices: "set (map fst (sentence_scores_sorted scores)) = {0..<length scores}"
  using mset_ranked_indices [of scores] by (metis mset_eq_setD set_upt)

lemma slice_to_take: "\<exists>m. slice_to k xs = take m xs"
  by (auto simp: slice_to_def)

lemma slice_to_nonneg: "0 \<le> k \<Longrightarrow> slice_to k xs = take (nat k) xs"
  by (simp add: slice_to_def)

lemma distinct_top_sentences: "distinct (top_sentences scores n f)"
proof -
  obtain m where m: "slice_to (target_count f n) (sentence_scores_sorted scores)
      = take m (sentence_scores_sorted scores)"
    using slice_to_take by blast
  have "distinct (take m (map fst (sentence_scores_sorted scores)))"
    using distinct_ranked_indices by (rule distinct_take)
  then show ?thesis by (simp add: top_sentences_def m take_map)
qed

lemma sorted_top_sentences: "sorted (top_sentences scores n f)"
  by (simp add: top_sentences_def)

lemma set_top_sentences: "set (top_sentences scores n f) \<subseteq> {0..<length scores}"
proof -
  obtain m where m: "slice_to (target_count f n) (sentence_scores_sorted scores)
      = take m (sentence_scores_sorted scores)"
    using slice_to_take by blast
  have "set (take m (map fst (sentence_scores_sorted scores))) \<subseteq> {0..<length scores}"
    using set_take_subset [of m "map fst (sentence_scores_sorted scores)"]
    by (simp only: set_ranked_indices)
  then show ?thesis by (simp add: top_sentences_def m take_map)
qed

lemma include_first_strict:
  assumes "sorted_wrt (<) ts"
  shows "sorted_wrt (<) (include_first ts)"
proof (cases "0 \<in> set ts")
  case True
  then show ?thesis using assms by (simp add: include_first_def)
next
  case False
  then have "\<forall>y \<in> set ts. 0 < y" by (metis gr0I)
  then show ?thesis using assms False by (simp add: include_first_def)
qed

lemma include_first_mem: "0 \<in> set (include_first ts)"
  by (simp add: include_first_def)

lemma set_include_first: "set (include_first ts) = insert 0 (set ts)"
  by (auto simp: include_first_def)

lemma length_include_first:
  "length (include_first ts) = (if 0 \<in> set ts then length ts else Suc (length ts))"
  by (simp add: include_first_def)

lemma selection_strict_sorted: "sorted_wrt (<) (selection scores n f)"
  unfolding selection_def
  by (rule include_first_strict)
     (simp add: strict_sorted_iff sorted_top_sentences distinct_top_sentences)

lemma target_count_bounds:
  assumes "1 \<le> n" and "0 < f" and "f \<le> 1"
  shows "1 \<le> target_count f n" and "target_count f n \<le> int n"
proof -
  have "0 < f * real n" using assms by simp
  then show "1 \<le> target_count f n" unfolding target_count_def by linarith
  have "f * real n \<le> real n" using assms by (simp add: mult_left_le_one_le)
  then show "target_count f n \<le> int n" unfolding target_count_def
    by (simp add: ceiling_le_iff)
qed

lemma length_top_sentences_nonneg:
  "0 \<le> target_count f n \<Longrightarrow>
   length (top_sentences scores n f) = min (nat (target_count f n)) (length scores)"
  by (simp add: top_sentences_def slice_to_nonneg min_def)

lemma length_include_take_mono:
  assumes "a \<le> b"
  shows "length (include_first (sort (map fst (take a xs))))
       \<le> length (include_first (sort (map fst (take b xs))))"
proof (cases "length xs \<le> a")
  case True
  then show ?thesis using assms by simp
next
  case False
  show ?thesis
  proof (cases "a = b")
    case True
    then show ?thesis by simp
  next
    case neq: False
    with assms False have "Suc a \<le> min b (length xs)" by simp
    moreover have "length (include_first (sort (map fst (take a xs)))) \<le> Suc a"
      by (simp add: length_include_first min_def)
    moreover have "min b (length xs) \<le> length (include_first (sort (map fst (take b xs))))"
      by (simp add: length_include_first min_def)
    ultimately show ?thesis by linarith
  qed
qed

lemma length_four: "length xs = 4 \<Longrightarrow> \<exists>a b c d. xs = [a, b, c, d]"
  by (auto simp: length_Suc_conv eval_nat_numeral)

lemma selection_one_positive:
  "0 < v \<Longrightarrow> selection [0, 0, v, 0] 4 (1/4) = [0, 2]"
  by (simp add: selection_def include_first_def top_sentences_def target_count_def
        slice_to_def sentence_scores_sorted_def items_def)

section \<open>Properties of the whole run\<close>

lemma those_map_Some_comp: "those (map (Some \<circ> f) xs) = Some (map f xs)"
  by (induction xs) simp_all

lemma generate_in_range:
  "\<forall>i \<in> set sel. i < length ss \<Longrightarrow> generate ss sel = (map (\<lambda>i. strip (ss ! i)) sel, None)"
  by (induction sel) simp_all

lemma set_selection: "set (selection scores n f) \<subseteq> insert 0 {0..<length scores}"
  using set_top_sentences [of scores n f] by (auto simp: selection_def set_include_first)

lemma nonneg_sort_key:
  "\<forall>(k, s) \<in> set kws. (0::real) \<le> s \<Longrightarrow> \<forall>(k, s) \<in> set (sort_key snd kws). 0 \<le> s"
  by simp

lemma pipeline_returns:
  assumes "length sentences = length sentences_processed" and "sentences \<noteq> []"
    and "\<forall>sent \<in> set sentences_processed. py_split sent \<noteq> []"
    and "\<forall>(k, s) \<in> set yake_keywords. 0 \<le> s"
  shows "pipeline sentences sentences_processed yake_keywords summary_size =
           Inr (selection (map (spec_score (sort_key snd yake_keywords)) sentences_processed)
                  (length sentences) summary_size,
                map (\<lambda>i. strip (sentences ! i))
                  (selection (map (spec_score (sort_key snd yake_keywords)) sentences_processed)
                     (length sentences) summary_size))"
proof -
  let ?kws = "sort_key snd yake_keywords"
  let ?scores = "map (spec_score ?kws) sentences_processed"
  let ?sel = "selection ?scores (length sentences) summary_size"
  have sc: "sentence_scores ?kws sentences_processed = Inr (map Some ?scores)"
    using sentence_scores_spec [OF nonneg_sort_key [OF assms(4)] assms(3)]
    by (simp add: comp_def)
  have "\<forall>i \<in> set ?sel. i < length sentences"
    using set_selection [of ?scores "length sentences" summary_size] assms(1,2) by auto
  then have gen: "generate sentences ?sel = (map (\<lambda>i. strip (sentences ! i)) ?sel, None)"
    by (rule generate_in_range)
  show ?thesis
    by (simp add: pipeline_def sc those_map_Some_comp gen Let_def)
qed

lemma selection_empty: "selection [] n f = [0]"
  by (simp add: selection_def include_first_def top_sentences_def slice_to_def
      sentence_scores_sorted_def items_def)

lemma selection_zero: "selection scores n 0 = [0]"
  by (simp add: selection_def include_first_def top_sentences_def slice_to_def
      target_count_def)

lemma py_sorted_ascending_unique:
  assumes "py_sorted key False xs r"
  shows "r = sort_key key xs"
proof -
  from assms have m: "mset r = mset xs" and s: "sorted (map key r)"
    and st: "\<forall>x \<in> set xs. filter (\<lambda>y. key y = key x) r = filter (\<lambda>y. key y = key x) xs"
    by (simp_all add: py_sorted_def)
  have "sort_key key xs = r"
  proof (rule properties_for_sort_key [OF m _ s])
    fix k assume "k \<in> set r"
    then have "k \<in> set xs" using m by (metis mset_eq_setD)
    with st have "filter (\<lambda>y. key y = key k) r = filter (\<lambda>y. key y = key k) xs" by blast
    then show "filter (\<lambda>x. key k = key x) r = filter (\<lambda>x. key k = key x) xs"
      by (simp add: eq_commute)
  qed
  then show ?thesis by simp
qed

lemma py_sorted_descending_unique:
  assumes "py_sorted key True xs r"
  shows "r = rev (sort_key key (rev xs))"
proof -
  from assms have m: "mset r = mset xs" and s: "sorted (rev (map key r))"
    and st: "\<forall>x \<in> set xs. filter (\<lambda>y. key y = key x) r = filter (\<lambda>y. key y = key x) xs"
    by (simp_all add: py_sorted_def)
  have "py_sorted key False (rev xs) (rev r)"
    unfolding py_sorted_def
  proof (intro conjI)
    show "mset (rev r) = mset (rev xs)" using m by simp
    show "if False then sorted (rev (map key (rev r))) else sorted (map key (rev r))"
      using s by (simp add: rev_map)
    show "\<forall>x \<in> set (rev xs). filter (\<lambda>y. key y = key x) (rev r)
            = filter (\<lambda>y. key y = key x) (rev xs)"
      using st by (simp add: rev_filter [symmetric])
  qed
  then have "rev r = sort_key key (rev xs)" by (rule py_sorted_ascending_unique)
  then show ?thesis by (metis rev_rev_ident)
qed

lemma py_sorted_ascending_exists: "py_sorted key False xs (sort_key key xs)"
  by (simp add: py_sorted_def sort_key_stable)

lemma py_sorted_descending_exists: "py_sorted key True xs (rev (sort_key key (rev xs)))"
proof -
  have "filter (\<lambda>y. key y = k) (rev (sort_key key (rev xs))) = filter (\<lambda>y. key y = k) xs" for k
  proof -
    have "filter (\<lambda>y. key y = k) (sort_key key (rev xs)) = filter (\<lambda>y. key y = k) (rev xs)"
      by (rule sort_key_stable)
    then show ?thesis by (simp add: rev_filter [symmetric])
  qed
  then show ?thesis by (simp add: py_sorted_def rev_map)
qed

lemma run_pipeline:
  "run sentences sentences_processed yake_keywords summary_size
     (pipeline sentences sentences_processed yake_keywords summary_size)"
proof (cases "sentence_scores (sort_key snd yake_keywords) sentences_processed")
  case (Inl e)
  then show ?thesis
    using scoring_raises [OF py_sorted_ascending_exists Inl]
    by (simp add: pipeline_def)
next
  case (Inr vs)
  show ?thesis
  proof (cases "those vs")
    case None
    then show ?thesis
      using score_not_finite [OF py_sorted_ascending_exists Inr None]
      by (simp add: pipeline_def Inr)
  next
    case (Some scores)
    let ?ranking = "sentence_scores_sorted scores"
    let ?top = "top_sentences scores (length sentences) summary_size"
    have r: "py_sorted snd True (items scores) ?ranking"
      unfolding sentence_scores_sorted_def by (rule py_sorted_descending_exists)
    have t: "py_sorted (\<lambda>i. i) False
               (map fst (slice_to (target_count summary_size (length sentences)) ?ranking)) ?top"
      unfolding top_sentences_def by (rule py_sorted_ascending_exists)
    obtain out e where g: "generate sentences (include_first ?top) = (out, e)"
      by (cases "generate sentences (include_first ?top)")
    show ?thesis
    proof (cases e)
      case None
      with g have g': "generate sentences (include_first ?top) = (out, None)" by simp
      from completes [OF py_sorted_ascending_exists Inr Some r t g'] g' show ?thesis
        by (simp add: pipeline_def Inr Some selection_def Let_def)
    next
      case (Some e')
      with g have g': "generate sentences (include_first ?top) = (out, Some e')" by simp
      from generation_raises [OF py_sorted_ascending_exists Inr \<open>those vs = Some scores\<close> r t g'] g'
      show ?thesis
        by (simp add: pipeline_def Inr \<open>those vs = Some scores\<close> selection_def Let_def)
    qed
  qed
qed

lemma run_is_pipeline:
  assumes "run sentences sentences_processed yake_keywords summary_size outcome"
  shows "outcome = pipeline sentences sentences_processed yake_keywords summary_size"
  using assms
proof (cases rule: run.cases)
  case (scoring_raises kws e)
  from py_sorted_ascending_unique [OF scoring_raises(2)] scoring_raises(1,3)
  show ?thesis by (simp add: pipeline_def)
next
  case (score_not_finite kws vs)
  from py_sorted_ascending_unique [OF score_not_finite(2)] score_not_finite(1,3,4)
  show ?thesis by (simp add: pipeline_def)
next
  case (generation_raises kws vs scores ranking chosen out e)
  have k: "kws = sort_key snd yake_keywords"
    using generation_raises(2) by (rule py_sorted_ascending_unique)
  have r: "ranking = sentence_scores_sorted scores"
    using py_sorted_descending_unique [OF generation_raises(5)]
    by (simp add: sentence_scores_sorted_def)
  have t: "chosen = top_sentences scores (length sentences) summary_size"
    using py_sorted_ascending_unique [OF generation_raises(6)]
    by (simp add: top_sentences_def r)
  from generation_raises(1,3,4,7) show ?thesis
    by (simp add: pipeline_def k [symmetric] selection_def t [symmetric] Let_def)
next
  case (completes kws vs scores ranking chosen out)
  have k: "kws = sort_key snd yake_keywords"
    using completes(2) by (rule py_sorted_ascending_unique)
  have r: "ranking = sentence_scores_sorted scores"
    using py_sorted_descending_unique [OF completes(5)]
    by (simp add: sentence_scores_sorted_def)
  have t: "chosen = top_sentences scores (length sentences) summary_size"
    using py_sorted_ascending_unique [OF completes(6)]
    by (simp add: top_sentences_def r)
  from completes(1,3,4,7) show ?thesis
    by (simp add: pipeline_def k [symmetric] selection_def t [symmetric] Let_def)
qed

lemma ties_need_the_rule:
  "py_sorted_any_ties snd True (items [1, 1]) [(0, 1), (1, 1)]
   \<and> py_sorted_any_ties snd True (items [1, 1]) [(1, 1), (0, 1)]
   \<and> py_sorted snd True (items [1, 1]) [(0, 1), (1, 1)]
   \<and> \<not> py_sorted snd True (items [1, 1]) [(1, 1), (0, 1)]"
  by (simp add: py_sorted_any_ties_def py_sorted_def items_def)

section \<open>The selection on valid input\<close>

text \<open>
  Claim C2. For every valid input (at least one sentence, one score per sentence,
  \<open>summary_size\<close> in the interval from 0 exclusive to 1 inclusive) the final selection
  has no duplicate, is in strictly ascending order, and contains index 0.
\<close>

theorem selection_ascending_with_first:
  assumes "1 \<le> num_sentences" and "0 < summary_size" and "summary_size \<le> 1"
    and "length scores = num_sentences"
  shows "distinct (selection scores num_sentences summary_size)
       \<and> sorted_wrt (<) (selection scores num_sentences summary_size)
       \<and> 0 \<in> set (selection scores num_sentences summary_size)"
  using selection_strict_sorted [of scores num_sentences summary_size]
  by (simp add: strict_sorted_iff selection_def include_first_mem)

theorem selection_ascending_with_first_witness:
  "1 \<le> (3::nat) \<and> 0 < (1/3::real) \<and> (1/3::real) \<le> 1 \<and> length [0, 2, 1::real] = 3
   \<and> selection [0, 2, 1] 3 (1/3) = [0, 1]
   \<and> distinct (selection [0, 2, 1] 3 (1/3))
   \<and> sorted_wrt (<) (selection [0, 2, 1] 3 (1/3))
   \<and> 0 \<in> set (selection [0, 2, 1] 3 (1/3))"
proof -
  have sel: "selection [0, 2, 1] 3 (1/3) = [0, 1]"
    by (simp add: selection_def include_first_def top_sentences_def target_count_def
        slice_to_def sentence_scores_sorted_def items_def)
  show ?thesis
    using selection_ascending_with_first [of 3 "1/3" "[0, 2, 1]"] sel by simp
qed

text \<open>
  Claim C5. For every valid input the length of the final selection is at least
  \<open>\<lceil>summary_size * num_sentences\<rceil>\<close>, at least 1, and at most \<open>num_sentences\<close>.
\<close>

theorem selection_length_bounds:
  assumes "1 \<le> num_sentences" and "0 < summary_size" and "summary_size \<le> 1"
    and "length scores = num_sentences"
  shows "\<lceil>summary_size * real num_sentences\<rceil>
           \<le> int (length (selection scores num_sentences summary_size))
       \<and> 1 \<le> length (selection scores num_sentences summary_size)
       \<and> length (selection scores num_sentences summary_size) \<le> num_sentences"
proof -
  let ?k = "target_count summary_size num_sentences"
  let ?top = "top_sentences scores num_sentences summary_size"
  from target_count_bounds [OF assms(1-3)] have k: "1 \<le> ?k" "?k \<le> int num_sentences" .
  then have len: "length ?top = nat ?k"
    using length_top_sentences_nonneg [of summary_size num_sentences scores] assms(4)
    by simp
  have lower: "?k \<le> int (length (include_first ?top))"
    using len k by (simp add: length_include_first)
  have upper: "length (include_first ?top) \<le> num_sentences"
  proof (cases "nat ?k = num_sentences")
    case True
    then have "slice_to ?k (sentence_scores_sorted scores) = sentence_scores_sorted scores"
      using k assms(4) by (simp add: slice_to_nonneg)
    then have "set ?top = {0..<num_sentences}"
      using set_ranked_indices [of scores] assms(4) by (simp add: top_sentences_def)
    then have "0 \<in> set ?top" using assms(1) by simp
    then show ?thesis using len True by (simp add: length_include_first)
  next
    case False
    then have "nat ?k < num_sentences" using k by linarith
    then show ?thesis using len by (simp add: length_include_first)
  qed
  from lower k have "1 \<le> length (include_first ?top)" by linarith
  with lower upper show ?thesis by (simp add: selection_def target_count_def)
qed

theorem selection_length_bounds_witness:
  "1 \<le> (4::nat) \<and> 0 < (1/2::real) \<and> (1/2::real) \<le> 1 \<and> length [0, 3, 1, 2::real] = 4
   \<and> selection [0, 3, 1, 2] 4 (1/2) = [0, 1, 3]
   \<and> \<lceil>(1/2::real) * real (4::nat)\<rceil> \<le> int (length (selection [0, 3, 1, 2] 4 (1/2)))
   \<and> 1 \<le> length (selection [0, 3, 1, 2] 4 (1/2))
   \<and> length (selection [0, 3, 1, 2] 4 (1/2)) \<le> 4"
proof -
  have sel: "selection [0, 3, 1, 2] 4 (1/2) = [0, 1, 3]"
    by (simp add: selection_def include_first_def top_sentences_def target_count_def
        slice_to_def sentence_scores_sorted_def items_def)
  show ?thesis
    using selection_length_bounds [of 4 "1/2" "[0, 3, 1, 2]"] sel by simp
qed

text \<open>
  Claim C7. With the scores and the number of sentences fixed, and the ranking of equal
  scores fixed by the stable sort, a larger \<open>summary_size\<close> never gives a shorter final
  selection: for \<open>0 < f1 \<le> f2 \<le> 1\<close> the selection for \<open>f2\<close> is at least as long as the
  selection for \<open>f1\<close>.
\<close>

theorem selection_length_mono:
  assumes "1 \<le> num_sentences" and "length scores = num_sentences"
    and "0 < f1" and "f1 \<le> f2" and "f2 \<le> 1"
  shows "length (selection scores num_sentences f1) \<le> length (selection scores num_sentences f2)"
proof -
  have f2: "0 < f2" using assms by linarith
  have f1: "f1 \<le> 1" using assms by linarith
  have k1: "0 \<le> target_count f1 num_sentences"
    using target_count_bounds(1) [OF assms(1) assms(3) f1] by linarith
  have k2: "0 \<le> target_count f2 num_sentences"
    using target_count_bounds(1) [OF assms(1) f2 assms(5)] by linarith
  have "f1 * real num_sentences \<le> f2 * real num_sentences"
    using assms by (simp add: mult_right_mono)
  then have "target_count f1 num_sentences \<le> target_count f2 num_sentences"
    unfolding target_count_def by (rule ceiling_mono)
  then have "nat (target_count f1 num_sentences) \<le> nat (target_count f2 num_sentences)"
    by simp
  then show ?thesis
    using length_include_take_mono [of "nat (target_count f1 num_sentences)"
        "nat (target_count f2 num_sentences)" "sentence_scores_sorted scores"]
    by (simp add: selection_def top_sentences_def slice_to_nonneg k1 k2)
qed

theorem selection_length_mono_witness:
  "1 \<le> (4::nat) \<and> length [0, 3, 1, 2::real] = 4
   \<and> 0 < (1/4::real) \<and> (1/4::real) \<le> 3/4 \<and> (3/4::real) \<le> 1
   \<and> selection [0, 3, 1, 2] 4 (1/4) = [0, 1]
   \<and> selection [0, 3, 1, 2] 4 (3/4) = [0, 1, 2, 3]
   \<and> length (selection [0, 3, 1, 2] 4 (1/4)) \<le> length (selection [0, 3, 1, 2] 4 (3/4))"
proof -
  have sel1: "selection [0, 3, 1, 2] 4 (1/4) = [0, 1]"
    by (simp add: selection_def include_first_def top_sentences_def target_count_def
        slice_to_def sentence_scores_sorted_def items_def)
  have sel2: "selection [0, 3, 1, 2] 4 (3/4) = [0, 1, 2, 3]"
    by (simp add: selection_def include_first_def top_sentences_def target_count_def
        slice_to_def sentence_scores_sorted_def items_def)
  show ?thesis
    using selection_length_mono [of 4 "[0, 3, 1, 2]" "1/4" "3/4"] sel1 sel2 by simp
qed

section \<open>The sentence scores\<close>

text \<open>
  Claim C1. Keyword importances are never negative (the data model). For every sentence
  \<open>i\<close> whose processed text has at least one whitespace-delimited token, the loop body
  computes the sum of \<open>ln (1 / rawImportance)\<close> over the keywords of positive importance
  that occur in the processed text, divided by the number of tokens (\<open>spec_score\<close>); this
  is the entry \<open>i\<close> of the score table whenever the loop completes; and removing the
  keywords of importance 0 from the list does not change the score.
\<close>

theorem sentence_score_formula:
  assumes "\<forall>(k, s) \<in> set keywords. 0 \<le> s"
    and "i < length sentences_processed"
    and "py_split (sentences_processed ! i) \<noteq> []"
  shows "score_sentence keywords (sentences_processed ! i)
           = Inr (Some (spec_score keywords (sentences_processed ! i)))
       \<and> (\<forall>vs. sentence_scores keywords sentences_processed = Inr vs
              \<longrightarrow> vs ! i = Some (spec_score keywords (sentences_processed ! i)))
       \<and> score_sentence (filter (\<lambda>(k, s). s \<noteq> 0) keywords) (sentences_processed ! i)
           = score_sentence keywords (sentences_processed ! i)"
proof -
  have one: "score_sentence keywords (sentences_processed ! i)
               = Inr (Some (spec_score keywords (sentences_processed ! i)))"
    using assms(1) assms(3) by (rule score_sentence_spec)
  have tab: "vs ! i = Some (spec_score keywords (sentences_processed ! i))"
    if "sentence_scores keywords sentences_processed = Inr vs" for vs
    using sentence_scores_nth [OF that] assms(2) one by simp
  have zero: "score_sentence (filter (\<lambda>(k, s). s \<noteq> 0) keywords) (sentences_processed ! i)
                = score_sentence keywords (sentences_processed ! i)"
    by (simp add: score_sentence_def keyword_loop_filter_zero)
  from one tab zero show ?thesis by blast
qed

theorem sentence_score_formula_witness:
  "score_sentence [(''alpha'', 1/100), (''beta'', 1/2), (''gamma'', 0)] ''alpha beta gamma''
     = Inr (Some ((ln 100 + ln 2) / 3))
   \<and> spec_score [(''alpha'', 1/100), (''beta'', 1/2), (''gamma'', 0)] ''alpha beta gamma''
     = (ln 100 + ln 2) / 3
   \<and> sentence_scores [(''alpha'', 1/100), (''beta'', 1/2), (''gamma'', 0)]
        [''alpha beta gamma'', ''x y'']
     = Inr [Some ((ln 100 + ln 2) / 3), Some 0]"
proof -
  have sp: "spec_score [(''alpha'', 1/100), (''beta'', 1/2), (''gamma'', 0)] ''alpha beta gamma''
              = (ln 100 + ln 2) / 3"
    by (simp add: spec_score_def py_split_def isspace_def)
  have tab: "sentence_scores [(''alpha'', 1/100), (''beta'', 1/2), (''gamma'', 0)]
               [''alpha beta gamma'', ''x y'']
             = Inr [Some ((ln 100 + ln 2) / 3), Some 0]"
    by (simp add: score_sentence_def py_split_def isspace_def np_log_def)
  have tok: "py_split ([''alpha beta gamma'', ''x y''] ! 0) \<noteq> []"
    by (simp add: py_split_def isspace_def)
  show ?thesis
    using sentence_score_formula [of "[(''alpha'', 1/100), (''beta'', 1/2), (''gamma'', 0)]" 0
        "[''alpha beta gamma'', ''x y'']", OF _ _ tok] sp tab
    by simp
qed

text \<open>
  Claim C6, as the specification states it: scoring a sentence without tokens fails. The
  division by the token count is unguarded, but it does not always raise: when the empty
  keyword, of importance 1/2, is in the list it occurs in the empty sentence, the
  accumulator is a numpy scalar by the time of the division, and the loop completes with
  a non-finite score for that sentence.
\<close>

theorem blank_keyword_counterexample:
  "py_split '''' = []
   \<and> score_sentence [('''', 1/2)] '''' = Inr None
   \<and> sentence_scores [('''', 1/2)] [''''] = Inr [None]
   \<and> sentence_scores [('''', 1/2)] [''''] \<noteq> Inl ZeroDivisionError"
  by (simp add: score_sentence_def py_split_def np_log_def)

text \<open>
  Claim C6, amended. When every processed sentence has at least one token the scoring
  loop completes with one score per sentence: the divisor is never 0. A sentence without
  tokens reaches the division with divisor 0, unguarded, and gets no number as its score:
  the division raises \<open>ZeroDivisionError\<close> when no keyword of non-zero importance occurs in
  the sentence (the accumulator is still the Python float \<^verbatim>\<open>0.0\<close>), and otherwise it is
  numpy's division by zero, a warning and a non-finite quotient, after which the loop goes
  on. A keyword that occurs in a sentence without tokens is empty or blank: when every
  keyword has a token itself, scoring the sentence raises \<open>ZeroDivisionError\<close> and so does
  the loop.
\<close>

theorem scoring_total_iff_tokens:
  "((\<forall>sent \<in> set sents. py_split sent \<noteq> [])
      \<longrightarrow> (\<exists>vs. sentence_scores kws sents = Inr vs \<and> length vs = length sents))
   \<and> (blank \<in> set sents \<and> py_split blank = []
      \<longrightarrow> score_sentence kws blank = normalize (keyword_loop kws blank (PyFloat 0)) 0
        \<and> score_sentence kws blank
            = (if \<exists>(k, s) \<in> set kws. s \<noteq> 0 \<and> py_in k blank
               then Inr None else Inl ZeroDivisionError)
        \<and> (\<forall>vs. sentence_scores kws sents = Inr vs \<longrightarrow> None \<in> set vs)
        \<and> ((\<forall>(k, s) \<in> set kws. py_split k \<noteq> [])
             \<longrightarrow> score_sentence kws blank = Inl ZeroDivisionError
               \<and> sentence_scores kws sents = Inl ZeroDivisionError))"
proof (intro conjI impI)
  assume tok: "\<forall>sent \<in> set sents. py_split sent \<noteq> []"
  have "\<forall>s \<in> set sents. \<exists>v. score_sentence kws s = Inr v"
  proof
    fix s assume "s \<in> set sents"
    with tok have "0 < length (py_split s)" by simp
    then show "\<exists>v. score_sentence kws s = Inr v"
      by (simp add: score_sentence_def normalize_pos)
  qed
  from sentence_scores_total [OF this] obtain vs where vs: "sentence_scores kws sents = Inr vs"
    by blast
  with sentence_scores_nth [OF vs]
  show "\<exists>vs. sentence_scores kws sents = Inr vs \<and> length vs = length sents" by simp
next
  assume "blank \<in> set sents \<and> py_split blank = []"
  then show "score_sentence kws blank = normalize (keyword_loop kws blank (PyFloat 0)) 0"
    by (simp add: score_sentence_def)
next
  assume b: "blank \<in> set sents \<and> py_split blank = []"
  then show one: "score_sentence kws blank
            = (if \<exists>(k, s) \<in> set kws. s \<noteq> 0 \<and> py_in k blank
               then Inr None else Inl ZeroDivisionError)"
    by (simp add: score_sentence_blank)
  show "\<forall>vs. sentence_scores kws sents = Inr vs \<longrightarrow> None \<in> set vs"
  proof (intro allI impI)
    fix vs assume vs: "sentence_scores kws sents = Inr vs"
    from b obtain i where i: "i < length sents" "sents ! i = blank"
      by (auto simp: in_set_conv_nth)
    with sentence_scores_nth [OF vs] have len: "length vs = length sents"
      and "score_sentence kws blank = Inr (vs ! i)" by auto
    with one have "vs ! i = None" by (auto split: if_splits)
    with i len show "None \<in> set vs" by (metis nth_mem)
  qed
next
  assume b: "blank \<in> set sents \<and> py_split blank = []"
    and kw: "\<forall>(k, s) \<in> set kws. py_split k \<noteq> []"
  have "\<not> (\<exists>(k, s) \<in> set kws. s \<noteq> 0 \<and> py_in k blank)"
    using kw b py_in_blank by fastforce
  with b show raised: "score_sentence kws blank = Inl ZeroDivisionError"
    by (simp add: score_sentence_blank)
  with b show "sentence_scores kws sents = Inl ZeroDivisionError"
    using sentence_scores_raises by blast
qed

theorem scoring_total_iff_tokens_witness:
  "sentence_scores [(''a'', 1/2)] [''a b'', ''c''] = Inr [Some (ln 2 / 2), Some 0]
   \<and> score_sentence [(''a'', 1/2)] '''' = Inl ZeroDivisionError
   \<and> sentence_scores [(''a'', 1/2)] [''a b'', ''''] = Inl ZeroDivisionError
   \<and> score_sentence [('''', 1/2)] '''' = Inr None
   \<and> sentence_scores [('''', 1/2)] [''''] = Inr [None]"
proof -
  have tok: "\<forall>sent \<in> set [''a b'', ''c'']. py_split sent \<noteq> []"
    by (simp add: py_split_def isspace_def)
  have blank: "'''' \<in> set [''a b'', ''''] \<and> py_split '''' = []"
    by (simp add: py_split_def)
  have kw: "\<forall>(k, s) \<in> set [(''a'', 1/2 :: real)]. py_split k \<noteq> []"
    by (simp add: py_split_def isspace_def)
  have a: "\<exists>vs. sentence_scores [(''a'', 1/2)] [''a b'', ''c''] = Inr vs
             \<and> length vs = length [''a b'', ''c'']"
    using scoring_total_iff_tokens [of "[''a b'', ''c'']" "[(''a'', 1/2)]"] tok by blast
  have b: "sentence_scores [(''a'', 1/2)] [''a b'', ''''] = Inl ZeroDivisionError"
    using scoring_total_iff_tokens [of "[''a b'', '''']" "[(''a'', 1/2)]" "''''"] blank kw
    by blast
  have c: "sentence_scores [(''a'', 1/2)] [''a b'', ''c''] = Inr [Some (ln 2 / 2), Some 0]"
    by (simp add: score_sentence_def py_split_def isspace_def np_log_def)
  have d: "score_sentence [(''a'', 1/2)] '''' = Inl ZeroDivisionError"
    by (simp add: score_sentence_def py_split_def)
  have e: "score_sentence [('''', 1/2)] '''' = Inr None"
    by (simp add: score_sentence_def py_split_def np_log_def)
  have f: "sentence_scores [('''', 1/2)] [''''] = Inr [None]"
    by (simp add: score_sentence_def py_split_def np_log_def)
  from a b c d e f show ?thesis by simp
qed

text \<open>
  Claim C10. A keyword of positive importance that occurs in a sentence adds
  \<open>ln (1 / rawImportance)\<close> once, however many times it occurs; two sentences with the
  same number of tokens in which the same keywords occur, each any positive number of
  times, get the same score.
\<close>

theorem keyword_counted_once:
  "(0 < s \<and> 0 < occurrences k sent \<and> py_split sent \<noteq> []
      \<longrightarrow> score_sentence [(k, s)] sent = Inr (Some (ln (1 / s) / real (length (py_split sent)))))
   \<and> ((\<forall>(k, s) \<in> set kws. (0 < occurrences k a) = (0 < occurrences k b))
        \<and> length (py_split a) = length (py_split b)
      \<longrightarrow> score_sentence kws a = score_sentence kws b)"
proof (intro conjI impI)
  assume h: "0 < s \<and> 0 < occurrences k sent \<and> py_split sent \<noteq> []"
  then have "py_in k sent" by (simp add: py_in_occurrences)
  with h show "score_sentence [(k, s)] sent
                 = Inr (Some (ln (1 / s) / real (length (py_split sent))))"
    by (simp add: score_sentence_def np_log_def)
next
  assume h: "(\<forall>(k, s) \<in> set kws. (0 < occurrences k a) = (0 < occurrences k b))
               \<and> length (py_split a) = length (py_split b)"
  then have "\<forall>(k, s) \<in> set kws. py_in k a = py_in k b"
    by (simp add: py_in_occurrences)
  from keyword_loop_cong [OF this] h show "score_sentence kws a = score_sentence kws b"
    by (simp add: score_sentence_def)
qed

theorem keyword_counted_once_witness:
  "occurrences ''ab'' ''ab ab'' = 2
   \<and> occurrences ''ab'' ''ab cd'' = 1
   \<and> score_sentence [(''ab'', 1/2)] ''ab ab'' = Inr (Some (ln 2 / 2))
   \<and> score_sentence [(''ab'', 1/2)] ''ab ab'' = score_sentence [(''ab'', 1/2)] ''ab cd''"
proof -
  have o1: "occurrences ''ab'' ''ab ab'' = 2" by simp
  have o2: "occurrences ''ab'' ''ab cd'' = 1" by simp
  have t1: "py_split ''ab ab'' = [''ab'', ''ab'']" by (simp add: py_split_def isspace_def)
  have t2: "py_split ''ab cd'' = [''ab'', ''cd'']" by (simp add: py_split_def isspace_def)
  have one: "score_sentence [(''ab'', 1/2)] ''ab ab'' = Inr (Some (ln 2 / 2))"
    using keyword_counted_once [of "1/2" "''ab''" "''ab ab''"] o1 t1 by simp
  have same: "score_sentence [(''ab'', 1/2)] ''ab ab'' = score_sentence [(''ab'', 1/2)] ''ab cd''"
    using keyword_counted_once [of _ _ _ "[(''ab'', 1/2)]" "''ab ab''" "''ab cd''"] o1 o2 t1 t2
    by simp
  from o1 o2 one same show ?thesis by simp
qed

section \<open>Input outside the valid range\<close>

text \<open>
  Claim C3, as the specification states it: with no sentence the run fails with an
  \<open>EmptyDocument\<close> error before any scoring. The notebook validates nothing: on the empty
  document the scoring loop completes with an empty table and the run ends with
  \<open>IndexError\<close>.
\<close>

theorem empty_document_counterexample:
  "sentence_scores [(''alpha'', 1/100)] [] = Inr []
   \<and> pipeline [] [] [(''alpha'', 1/100)] (1/4) = Inl IndexError
   \<and> pipeline [] [] [(''alpha'', 1/100)] (1/4) \<noteq> Inl EmptyDocument"
  by (simp add: pipeline_def selection_empty)

text \<open>
  Claim C3, amended. With no sentence, whatever the keywords and \<open>summary_size\<close>: the
  scoring loop completes with an empty score table, the final selection is \<open>[0]\<close>, and
  summary generation raises \<open>IndexError\<close> on sentence 0 before printing any line, so the
  run ends with \<open>IndexError\<close> and no summary.
\<close>

theorem empty_document_index_error:
  "sentence_scores yake_keywords_sorted [] = Inr []
   \<and> selection [] 0 summary_size = [0]
   \<and> generate [] (selection [] 0 summary_size) = ([], Some IndexError)
   \<and> pipeline [] [] yake_keywords summary_size = Inl IndexError"
  by (simp add: pipeline_def selection_empty)

theorem empty_document_index_error_witness:
  "selection [] 0 (1/4) = [0]
   \<and> generate [] [0] = ([], Some IndexError)
   \<and> pipeline [] [] [(''alpha'', 1/100), (''beta'', 1/2)] (1/4) = Inl IndexError"
  using empty_document_index_error [of "[]" "1/4" "[(''alpha'', 1/100), (''beta'', 1/2)]"]
  by simp

text \<open>
  Claim C4, as the specification states it: with \<open>summary_size \<le> 0\<close> the run fails with
  an \<open>InvalidParameter\<close> error and returns no selection. The notebook validates nothing:
  with \<open>summary_size = 0\<close> it returns the selection \<open>[0]\<close> and prints the first sentence.
\<close>

theorem zero_fraction_counterexample:
  "pipeline [''First one. '', ''Second.''] [''first one .'', ''second .''] [(''second'', 1/2)] 0
     = Inr ([0], [''First one.''])
   \<and> pipeline [''First one. '', ''Second.''] [''first one .'', ''second .''] [(''second'', 1/2)] 0
     \<noteq> Inl InvalidParameter"
  by (simp add: pipeline_def selection_zero score_sentence_def py_split_def isspace_def
      np_log_def strip_def)

text \<open>
  Claim C4, amended. With \<open>summary_size \<le> 0\<close>, on a document of at least one sentence
  whose processed sentences all have a token and whose keyword importances are not
  negative, the run raises nothing: it returns a selection that contains index 0 and
  prints the selected sentences, and for \<open>summary_size = 0\<close> the selection is exactly
  \<open>[0]\<close>.
\<close>

theorem nonpositive_fraction_selection:
  assumes "summary_size \<le> 0"
    and "length sentences = length sentences_processed" and "sentences \<noteq> []"
    and "\<forall>sent \<in> set sentences_processed. py_split sent \<noteq> []"
    and "\<forall>(k, s) \<in> set yake_keywords. 0 \<le> s"
  shows "\<exists>sel. pipeline sentences sentences_processed yake_keywords summary_size
                 = Inr (sel, map (\<lambda>i. strip (sentences ! i)) sel)
             \<and> 0 \<in> set sel
             \<and> (summary_size = 0 \<longrightarrow> sel = [0])"
  using pipeline_returns [OF assms(2-5), of summary_size]
  by (auto simp: selection_def include_first_mem selection_zero [unfolded selection_def])

theorem nonpositive_fraction_selection_witness:
  "pipeline [''First one. '', ''Second.''] [''first one .'', ''second .''] [(''second'', 1/2)] 0
     = Inr ([0], [''First one.''])
   \<and> pipeline [''First one. '', ''Second.'', ''Third.''] [''first one .'', ''second .'', ''third .'']
        [(''second'', 1/2)] (- 1/2)
     = Inr ([0, 1], [''First one.'', ''Second.''])"
proof -
  have tok: "\<forall>sent \<in> set [''first one .'', ''second .'']. py_split sent \<noteq> []"
    by (simp add: py_split_def isspace_def)
  have kw: "\<forall>(k, s) \<in> set [(''second'', 1/2 :: real)]. 0 \<le> s" by simp
  have "\<exists>sel. pipeline [''First one. '', ''Second.''] [''first one .'', ''second .'']
                 [(''second'', 1/2)] 0
               = Inr (sel, map (\<lambda>i. strip ([''First one. '', ''Second.''] ! i)) sel)
             \<and> 0 \<in> set sel \<and> ((0::real) = 0 \<longrightarrow> sel = [0])"
    using nonpositive_fraction_selection [of 0 "[''First one. '', ''Second.'']"
        "[''first one .'', ''second .'']" "[(''second'', 1/2)]", OF _ _ _ tok kw]
    by simp
  then have one: "pipeline [''First one. '', ''Second.''] [''first one .'', ''second .'']
                 [(''second'', 1/2)] 0 = Inr ([0], [''First one.''])"
    by (auto simp: strip_def isspace_def)
  have two: "pipeline [''First one. '', ''Second.'', ''Third.'']
        [''first one .'', ''second .'', ''third .''] [(''second'', 1/2)] (- 1/2)
     = Inr ([0, 1], [''First one.'', ''Second.''])"
    by (simp add: pipeline_def score_sentence_def py_split_def isspace_def
      np_log_def strip_def selection_def include_first_def top_sentences_def slice_to_def
      target_count_def sentence_scores_sorted_def items_def)
  from one two show ?thesis by simp
qed

section \<open>Scenario A\<close>

text \<open>
  Claim C8. Four sentences, each with at least one token, and the keywords
  \<open>(alpha, 0.01)\<close> and \<open>(beta, 0.5)\<close>; the processed text of sentence 2 contains both
  keywords and no other sentence contains either. Then the score of sentence 2 is
  positive, every other score is 0, the target count for \<open>summary_size = 0.25\<close> is 1, and
  the final selection is \<open>[0, 2]\<close>; the run prints sentences 0 and 2.
\<close>

theorem scenario_A:
  assumes "length sentences = 4" and "length sentences_processed = 4"
    and "\<forall>i < 4. py_split (sentences_processed ! i) \<noteq> []"
    and "py_in ''alpha'' (sentences_processed ! 2)"
    and "py_in ''beta'' (sentences_processed ! 2)"
    and "\<forall>i < 4. i \<noteq> 2 \<longrightarrow> \<not> py_in ''alpha'' (sentences_processed ! i)
                              \<and> \<not> py_in ''beta'' (sentences_processed ! i)"
  shows "\<exists>v. sentence_scores [(''alpha'', 0.01), (''beta'', 0.5)] sentences_processed
                = Inr [Some 0, Some 0, Some v, Some 0]
           \<and> 0 < v
           \<and> target_count 0.25 4 = 1
           \<and> selection [0, 0, v, 0] 4 0.25 = [0, 2]
           \<and> pipeline sentences sentences_processed [(''alpha'', 0.01), (''beta'', 0.5)] 0.25
                = Inr ([0, 2], [strip (sentences ! 0), strip (sentences ! 2)])"
proof -
  let ?kws = "[(''alpha'', 1/100 :: real), (''beta'', 1/2)]"
  from length_four [OF assms(2)] obtain s0 s1 s2 s3
    where sp: "sentences_processed = [s0, s1, s2, s3]" by blast
  have tok: "py_split s0 \<noteq> []" "py_split s1 \<noteq> []" "py_split s2 \<noteq> []" "py_split s3 \<noteq> []"
    using assms(3) [rule_format, of 0] assms(3) [rule_format, of 1]
      assms(3) [rule_format, of 2] assms(3) [rule_format, of 3]
    by (simp_all add: sp)
  have in2: "py_in ''alpha'' s2" "py_in ''beta'' s2"
    using assms(4,5) by (simp_all add: sp)
  have out: "\<not> py_in ''alpha'' s0" "\<not> py_in ''beta'' s0"
    "\<not> py_in ''alpha'' s1" "\<not> py_in ''beta'' s1"
    "\<not> py_in ''alpha'' s3" "\<not> py_in ''beta'' s3"
    using assms(6) [rule_format, of 0] assms(6) [rule_format, of 1]
      assms(6) [rule_format, of 3]
    by (simp_all add: sp)
  define v where "v = (ln 100 + ln 2) / real (length (py_split s2))"
  have len2: "0 < real (length (py_split s2))" using tok(3) by simp
  have "0 < ln (100::real) + ln 2" by (simp add: add_pos_pos)
  with len2 have v: "0 < v" by (simp add: v_def)
  have nonneg: "\<forall>(k, s) \<in> set ?kws. 0 \<le> s" by simp
  have alltok: "\<forall>sent \<in> set sentences_processed. py_split sent \<noteq> []"
    using tok by (simp add: sp)
  have sc0: "spec_score ?kws s0 = 0" using out by (simp add: spec_score_def)
  have sc1: "spec_score ?kws s1 = 0" using out by (simp add: spec_score_def)
  have sc3: "spec_score ?kws s3 = 0" using out by (simp add: spec_score_def)
  have sc2: "spec_score ?kws s2 = v" using in2 by (simp add: spec_score_def v_def)
  have tab: "map (\<lambda>sent. Some (spec_score ?kws sent)) sentences_processed
               = [Some 0, Some 0, Some v, Some 0]"
    by (simp add: sp sc0 sc1 sc2 sc3)
  have scores: "sentence_scores ?kws sentences_processed = Inr [Some 0, Some 0, Some v, Some 0]"
    using sentence_scores_spec [OF nonneg alltok] by (simp only: tab)
  have k: "target_count (1/4) 4 = 1" by (simp add: target_count_def)
  have sel: "selection [0, 0, v, 0] 4 (1/4) = [0, 2]"
    using v by (rule selection_one_positive)
  have srt: "sort_key snd ?kws = ?kws" by simp
  have ne: "sentences \<noteq> []" using assms(1) by auto
  have "pipeline sentences sentences_processed ?kws (1/4)
          = Inr ([0, 2], [strip (sentences ! 0), strip (sentences ! 2)])"
    using pipeline_returns [of sentences sentences_processed ?kws "1/4", OF _ ne alltok nonneg]
      assms(1,2) sel
    by (simp add: srt sp sc0 sc1 sc2 sc3)
  with scores v k sel
  have "\<exists>v. sentence_scores ?kws sentences_processed = Inr [Some 0, Some 0, Some v, Some 0]
           \<and> 0 < v
           \<and> target_count (1/4) 4 = 1
           \<and> selection [0, 0, v, 0] 4 (1/4) = [0, 2]
           \<and> pipeline sentences sentences_processed ?kws (1/4)
                = Inr ([0, 2], [strip (sentences ! 0), strip (sentences ! 2)])"
    by blast
  then show ?thesis by simp
qed

theorem scenario_A_witness:
  "sentence_scores [(''alpha'', 0.01), (''beta'', 0.5)]
       [''intro words'', ''more text here'', ''alpha and beta'', ''the end'']
     = Inr [Some 0, Some 0, Some ((ln 100 + ln 2) / 3), Some 0]
   \<and> pipeline [''Intro words. '', ''More text here.'', ''Alpha and beta.'', ''The end.'']
       [''intro words'', ''more text here'', ''alpha and beta'', ''the end'']
       [(''alpha'', 0.01), (''beta'', 0.5)] 0.25
     = Inr ([0, 2], [''Intro words.'', ''Alpha and beta.''])"
proof -
  let ?sp = "[''intro words'', ''more text here'', ''alpha and beta'', ''the end'']"
  let ?ss = "[''Intro words. '', ''More text here.'', ''Alpha and beta.'', ''The end.'']"
  have tok: "\<forall>i < 4. py_split (?sp ! i) \<noteq> []"
    by (simp add: py_split_def isspace_def nth_Cons split: nat.splits)
  have out: "\<forall>i < 4. i \<noteq> 2 \<longrightarrow> \<not> py_in ''alpha'' (?sp ! i) \<and> \<not> py_in ''beta'' (?sp ! i)"
    by (simp add: nth_Cons split: nat.splits)
  have a: "py_in ''alpha'' (?sp ! 2)" by simp
  have b: "py_in ''beta'' (?sp ! 2)" by simp
  have sc: "sentence_scores [(''alpha'', 0.01), (''beta'', 0.5)] ?sp
              = Inr [Some 0, Some 0, Some ((ln 100 + ln 2) / 3), Some 0]"
    by (simp add: score_sentence_def py_split_def isspace_def np_log_def)
  have "length ?ss = 4" and "length ?sp = 4" by simp_all
  from scenario_A [OF this tok a b out]
  have "pipeline ?ss ?sp [(''alpha'', 0.01), (''beta'', 0.5)] 0.25
          = Inr ([0, 2], [strip (?ss ! 0), strip (?ss ! 2)])"
    by blast
  then have "pipeline ?ss ?sp [(''alpha'', 0.01), (''beta'', 0.5)] 0.25
          = Inr ([0, 2], [''Intro words.'', ''Alpha and beta.''])"
    by (simp add: strip_def isspace_def)
  with sc show ?thesis by simp
qed

section \<open>Determinism\<close>

text \<open>
  Claim C9. Take of \<^verbatim>\<open>sorted\<close> only its contract, with the tie-break rule that equal keys
  keep their original order. Then every input (sentence lists, keyword list and
  \<open>summary_size\<close>) has a run, and any two runs on the same input have the same outcome:
  the same selection and the same summary, or the same exception.
\<close>

theorem runs_agree:
  "(\<exists>outcome. run sentences sentences_processed yake_keywords summary_size outcome)
   \<and> (run sentences sentences_processed yake_keywords summary_size outcome1
        \<and> run sentences sentences_processed yake_keywords summary_size outcome2
      \<longrightarrow> outcome1 = outcome2)"
proof (intro conjI impI)
  show "\<exists>outcome. run sentences sentences_processed yake_keywords summary_size outcome"
    using run_pipeline by blast
next
  assume "run sentences sentences_processed yake_keywords summary_size outcome1
        \<and> run sentences sentences_processed yake_keywords summary_size outcome2"
  then have "outcome1 = pipeline sentences sentences_processed yake_keywords summary_size"
    and "outcome2 = pipeline sentences sentences_processed yake_keywords summary_size"
    by (simp_all add: run_is_pipeline)
  then show "outcome1 = outcome2" by simp
qed

theorem runs_agree_witness:
  "run [''A. '', ''B.'', ''C.''] [''a .'', ''b .'', ''c .''] [(''b'', 1/2), (''x'', 1/2)] (1/3)
     (Inr ([0, 1], [''A.'', ''B.'']))
   \<and> \<not> run [''A. '', ''B.'', ''C.''] [''a .'', ''b .'', ''c .''] [(''b'', 1/2), (''x'', 1/2)] (1/3)
     (Inr ([0, 2], [''A.'', ''C.'']))"
proof -
  let ?ss = "[''A. '', ''B.'', ''C.'']"
  let ?sp = "[''a .'', ''b .'', ''c .'']"
  let ?kws = "[(''b'', 1/2 :: real), (''x'', 1/2)]"
  have p: "pipeline ?ss ?sp ?kws (1/3) = Inr ([0, 1], [''A.'', ''B.''])"
    by (simp add: pipeline_def score_sentence_def py_split_def isspace_def
      np_log_def strip_def selection_def include_first_def top_sentences_def slice_to_def
      target_count_def sentence_scores_sorted_def items_def)
  have one: "run ?ss ?sp ?kws (1/3) (Inr ([0, 1], [''A.'', ''B.'']))"
    using run_pipeline [of ?ss ?sp ?kws "1/3"] by (simp only: p)
  have two: "\<not> run ?ss ?sp ?kws (1/3) (Inr ([0, 2], [''A.'', ''C.'']))"
  proof
    assume "run ?ss ?sp ?kws (1/3) (Inr ([0, 2], [''A.'', ''C.'']))"
    with one have "(Inr ([0, 1], [''A.'', ''B.'']) :: error + nat list \<times> string list)
                     = Inr ([0, 2], [''A.'', ''C.''])"
      using runs_agree [of ?ss ?sp ?kws "1/3" "Inr ([0, 1], [''A.'', ''B.''])"
          "Inr ([0, 2], [''A.'', ''C.''])"]
      by blast
    then show False by simp
  qed
  from one two show ?thesis by simp
qed

end
